theory Spec2Isabelle
  imports Main "HOL-Library.Multiset"
begin

section \<open>JavaScript strings\<close>

text \<open>
  A JavaScript string is a sequence of UTF-16 code units. A code unit is modelled as a
  natural number, a string as the list of its code units. ASCII literals of the source are
  written through \<open>ascii\<close>.
\<close>

type_synonym jschar = nat
type_synonym jsstring = "jschar list"

definition ascii :: "string \<Rightarrow> jsstring" where
  "ascii s = map of_char s"

definition c_hash :: jschar where "c_hash = 35"
definition c_dollar :: jschar where "c_dollar = 36"
definition c_slash :: jschar where "c_slash = 47"
definition c_colon :: jschar where "c_colon = 58"

text \<open>
  \<open>String.prototype.trim\<close> removes leading and trailing WhiteSpace and LineTerminator
  code points (ECMAScript 22.1.3.32): TAB, LF, VT, FF, CR, SP, NBSP, U+1680,
  U+2000..U+200A, U+2028, U+2029, U+202F, U+205F, U+3000 and U+FEFF.
\<close>

definition is_js_space :: "jschar \<Rightarrow> bool" where
  "is_js_space c \<longleftrightarrow>
     c = 9 \<or> c = 10 \<or> c = 11 \<or> c = 12 \<or> c = 13 \<or> c = 32 \<or> c = 160 \<or> c = 5760 \<or>
     (8192 \<le> c \<and> c \<le> 8202) \<or> c = 8232 \<or> c = 8233 \<or> c = 8239 \<or> c = 8287 \<or>
     c = 12288 \<or> c = 65279"

definition trim :: "jsstring \<Rightarrow> jsstring" where
  "trim s = rev (dropWhile is_js_space (rev (dropWhile is_js_space s)))"

text \<open>The decimal rendering of a non-negative integer, as a template literal produces it.\<close>

fun show_nat :: "nat \<Rightarrow> jsstring" where
  "show_nat n = (if n < 10 then [48 + n] else show_nat (n div 10) @ [48 + n mod 10])"

declare show_nat.simps [simp del]

text \<open>
  \<open>s.split(sep)\<close> for a separator of one code unit and no limit: the fields between the
  separators, empty fields included; the empty string splits into one empty field.
\<close>

fun split_on :: "jschar \<Rightarrow> jsstring \<Rightarrow> jsstring list" where
  "split_on sep [] = [[]]"
| "split_on sep (x # xs) =
     (if x = sep then [] # split_on sep xs
      else (case split_on sep xs of
              [] \<Rightarrow> [[x]]
            | field # fields \<Rightarrow> (x # field) # fields))"

text \<open>Reading an array at an index: \<open>undefined\<close> (here \<open>None\<close>) out of range.\<close>

fun nth_opt :: "'a list \<Rightarrow> nat \<Rightarrow> 'a option" where
  "nth_opt [] i = None"
| "nth_opt (x # xs) 0 = Some x"
| "nth_opt (x # xs) (Suc i) = nth_opt xs i"

section \<open>The search-history store (lib/store/search-history-store.ts)\<close>

definition MAX_SEARCH_HISTORY :: nat where
  "MAX_SEARCH_HISTORY = 20"

record SearchHistoryItem =
  query :: jsstring
  timestamp :: nat

text \<open>
  The store's state is the \<open>searchHistory\<close> array. \<open>Date.now()\<close> is an input of
  \<open>addSearchHistory\<close>: the argument \<open>now\<close>.
\<close>

definition addSearchHistory :: "nat \<Rightarrow> jsstring \<Rightarrow> SearchHistoryItem list \<Rightarrow> SearchHistoryItem list" where
  "addSearchHistory now q searchHistory =
     (let trimmedQuery = trim q in
      if trimmedQuery = [] then searchHistory
      else
        let filtered = filter (\<lambda>item. query item \<noteq> trimmedQuery) searchHistory;
            newHistory = take MAX_SEARCH_HISTORY
                           (\<lparr>query = trimmedQuery, timestamp = now\<rparr> # filtered)
        in newHistory)"

definition removeSearchHistory :: "jsstring \<Rightarrow> SearchHistoryItem list \<Rightarrow> SearchHistoryItem list" where
  "removeSearchHistory q searchHistory = filter (\<lambda>item. query item \<noteq> q) searchHistory"

definition clearSearchHistory :: "SearchHistoryItem list \<Rightarrow> SearchHistoryItem list" where
  "clearSearchHistory searchHistory = []"

datatype store_op =
    AddSearchHistory nat jsstring
  | RemoveSearchHistory jsstring
  | ClearSearchHistory

fun store_step :: "SearchHistoryItem list \<Rightarrow> store_op \<Rightarrow> SearchHistoryItem list" where
  "store_step h (AddSearchHistory now q) = addSearchHistory now q h"
| "store_step h (RemoveSearchHistory q) = removeSearchHistory q h"
| "store_step h ClearSearchHistory = clearSearchHistory h"

text \<open>A sequence of store operations, run from the store's initial state \<open>[]\<close>.\<close>

definition run_store :: "store_op list \<Rightarrow> SearchHistoryItem list" where
  "run_store ops = foldl store_step [] ops"

section \<open>Episode parsing (parseEpisodes)\<close>

record Episode =
  name :: jsstring
  url :: jsstring
  index :: nat

text \<open>
  \<open>url.replace(/([^:])\/\//g, '$1/')\<close>: the scan goes left to right; where a code unit other
  than \<open>:\<close> is followed by \<open>//\<close> the three are replaced by the code unit and one \<open>/\<close>,
  and the scan resumes after them; elsewhere it moves on by one code unit.
\<close>

fun cleanUrl :: "jsstring \<Rightarrow> jsstring" where
  "cleanUrl (c # s1 # s2 # rest) =
     (if c \<noteq> c_colon \<and> s1 = c_slash \<and> s2 = c_slash then c # c_slash # cleanUrl rest
      else c # cleanUrl (s1 # s2 # rest))"
| "cleanUrl s = s"

definition parseEpisode :: "nat \<Rightarrow> jsstring \<Rightarrow> Episode" where
  "parseEpisode i episode =
     (let parts = split_on c_dollar episode;
          name_part = nth_opt parts 0;
          url_part = nth_opt parts 1;
          cleaned = cleanUrl (case url_part of None \<Rightarrow> [] | Some u \<Rightarrow> u)
      in \<lparr>name = (case name_part of
                    None \<Rightarrow> ascii ''Episode '' @ show_nat (i + 1)
                  | Some n \<Rightarrow> if n = [] then ascii ''Episode '' @ show_nat (i + 1) else n),
          url = cleaned,
          index = i\<rparr>)"

definition parseEpisodes :: "jsstring \<Rightarrow> Episode list" where
  "parseEpisodes playUrl =
     (if playUrl = [] then []
      else
        let episodes = filter (\<lambda>s. s \<noteq> []) (split_on c_hash playUrl)
        in map (\<lambda>(i, episode). parseEpisode i episode) (enumerate 0 episodes))"

text \<open>
  The words of the description of \<open>parseEpisodes\<close>: the text before a separator, the text
  after its first occurrence (empty when it is absent), the text after its last occurrence,
  and the non-empty \<open>#\<close>-separated segments of a play-URL string.
\<close>

definition text_before :: "jschar \<Rightarrow> jsstring \<Rightarrow> jsstring" where
  "text_before c s = takeWhile (\<lambda>x. x \<noteq> c) s"

definition text_after :: "jschar \<Rightarrow> jsstring \<Rightarrow> jsstring" where
  "text_after c s = drop 1 (dropWhile (\<lambda>x. x \<noteq> c) s)"

definition text_after_last :: "jschar \<Rightarrow> jsstring \<Rightarrow> jsstring" where
  "text_after_last c s = rev (takeWhile (\<lambda>x. x \<noteq> c) (rev s))"

definition segments :: "jsstring \<Rightarrow> jsstring list" where
  "segments playUrl = filter (\<lambda>s. s \<noteq> []) (split_on c_hash playUrl)"

fun join :: "jschar \<Rightarrow> jsstring list \<Rightarrow> jsstring" where
  "join sep [] = []"
| "join sep [f] = f"
| "join sep (f # g # fs) = f @ sep # join sep (g # fs)"

section \<open>Source names (lib/utils/source-names.ts, and the route's local copy)\<close>

text \<open>
  The table \<open>sourceNames\<close>, in the order of the source; the display names are given by
  their UTF-16 code units.
\<close>

definition sourceNames :: "(jsstring \<times> jsstring) list" where
  "sourceNames =
     [(ascii ''dytt'', [0x7535, 0x5F71, 0x5929, 0x5802]),
      (ascii ''ruyi'', [0x5982, 0x610F]),
      (ascii ''baofeng'', [0x66B4, 0x98CE]),
      (ascii ''tianya'', [0x5929, 0x6DAF]),
      (ascii ''feifan'', [0x975E, 0x51E1, 0x5F71, 0x89C6]),
      (ascii ''sanliuling'', ascii ''360''),
      (ascii ''wolong'', [0x5367, 0x9F99]),
      (ascii ''jisu'', [0x6781, 0x901F]),
      (ascii ''mozhua'', [0x9B54, 0x722A]),
      (ascii ''modu'', [0x9B54, 0x90FD]),
      (ascii ''zuida'', [0x6700, 0x5927]),
      (ascii ''yinghua'', [0x6A31, 0x82B1]),
      (ascii ''baiduyun'', [0x767E, 0x5EA6, 0x4E91]),
      (ascii ''wujin'', [0x65E0, 0x5C3D]),
      (ascii ''wangwang'', [0x65FA, 0x65FA]),
      (ascii ''ikun'', ascii ''iKun'')]"

text \<open>
  \<open>sourceNames\<close> is an object literal, so reading \<open>sourceNames[key]\<close> also finds the
  members it inherits from \<open>Object.prototype\<close> (ECMAScript 20.1.3 and B.2.2): functions,
  and for \<open>__proto__\<close> the prototype object itself, all of them truthy and none a string.
\<close>

definition object_prototype_keys :: "jsstring list" where
  "object_prototype_keys =
     [ascii ''constructor'', ascii ''hasOwnProperty'', ascii ''isPrototypeOf'',
      ascii ''propertyIsEnumerable'', ascii ''toLocaleString'', ascii ''toString'',
      ascii ''valueOf'', ascii ''__proto__'', ascii ''__defineGetter__'',
      ascii ''__defineSetter__'', ascii ''__lookupGetter__'', ascii ''__lookupSetter__'']"

text \<open>
  What \<open>getSourceName\<close> returns: a string, or the member inherited under the given key.
\<close>

datatype name_value = Name jsstring | Inherited jsstring

text \<open>
  \<open>sourceNames[sourceId] || sourceId\<close>: the table's own entry when it has one (the id when
  the entry is the empty string); else the inherited member when the id names one; else
  the id itself.
\<close>

definition getSourceName :: "jsstring \<Rightarrow> name_value" where
  "getSourceName sourceId =
     (case map_of sourceNames sourceId of
        Some n \<Rightarrow> if n = [] then Name sourceId else Name n
      | None \<Rightarrow>
          if sourceId \<in> set object_prototype_keys then Inherited sourceId
          else Name sourceId)"

section \<open>JavaScript Map, in insertion order\<close>

text \<open>
  A \<open>Map\<close> is the list of its entries in insertion order, each key once. \<open>set\<close> on a key
  that is present replaces the value where the entry stands; on a new key it appends.
\<close>

type_synonym ('k, 'v) jsmap = "('k \<times> 'v) list"

definition map_has :: "('k, 'v) jsmap \<Rightarrow> 'k \<Rightarrow> bool" where
  "map_has m k \<longleftrightarrow> map_of m k \<noteq> None"

definition map_get :: "('k, 'v) jsmap \<Rightarrow> 'k \<Rightarrow> 'v option" where
  "map_get m k = map_of m k"

fun map_set :: "('k, 'v) jsmap \<Rightarrow> 'k \<Rightarrow> 'v \<Rightarrow> ('k, 'v) jsmap" where
  "map_set [] k v = [(k, v)]"
| "map_set ((k', v') # m) k v = (if k' = k then (k, v) # m else (k', v') # map_set m k v)"

section \<open>The batch search route (app/api/search/route.ts, POST)\<close>

text \<open>
  A field of the request body is any JSON value, or \<open>undefined\<close> when the body lacks it.
  The elements of an array are source ids, strings as the handler annotates them; of a
  number only whether it is zero matters to the handler.
\<close>

datatype jsval =
    Undefined
  | Null
  | Bool bool
  | Num int
  | Str jsstring
  | Arr "jsstring list"
  | Obj

fun truthy :: "jsval \<Rightarrow> bool" where
  "truthy Undefined = False"
| "truthy Null = False"
| "truthy (Bool b) = b"
| "truthy (Num n) = (n \<noteq> 0)"
| "truthy (Str s) = (s \<noteq> [])"
| "truthy (Arr xs) = True"
| "truthy Obj = True"

fun is_string :: "jsval \<Rightarrow> bool" where
  "is_string (Str s) = True"
| "is_string v = False"

fun isArray :: "jsval \<Rightarrow> bool" where
  "isArray (Arr xs) = True"
| "isArray v = False"

text \<open>The string, and the elements, of a value already known to be a string, an array.\<close>

fun str_value :: "jsval \<Rightarrow> jsstring" where
  "str_value (Str s) = s"
| "str_value v = []"

fun arr_value :: "jsval \<Rightarrow> jsstring list" where
  "arr_value (Arr xs) = xs"
| "arr_value v = []"

text \<open>
  \<open>await request.json()\<close> rejects, or gives the parsed body: \<open>null\<close>, or a value whose
  properties \<open>query\<close>, \<open>sources\<close> and \<open>page\<close> are read (\<open>Undefined\<close> where it has none,
  as for every field of a body that is a number, a string, a boolean or an array).
\<close>

record SearchRequest =
  body_query :: jsval
  body_sources :: jsval
  body_page :: jsval

datatype json_body = BodyNull | Body SearchRequest

text \<open>What a \<open>throw\<close> or a rejected promise carries: an \<open>Error\<close> with its message, or another value.\<close>

datatype thrown = ErrorObject jsstring | OtherValue

record video =
  vod_id :: jsstring
  source :: jsstring

record SearchResult =
  sr_results :: "video list"
  sr_source :: jsstring
  sr_responseTime :: "nat option"

record SourceStat =
  sourceId :: jsstring
  sourceName :: name_value
  count :: nat

record SearchResponse =
  r_query :: jsstring
  r_page :: jsval
  r_sources :: "SearchResult list"
  totalResults :: nat
  sourceStats :: "SourceStat list"

text \<open>
  The three shapes of a response body: \<open>{ error }\<close>, \<open>{ success: false, error }\<close> and
  \<open>{ success: true, query, page, sources, totalResults, sourceStats }\<close>.
\<close>

datatype response_body =
    ErrorOnly jsstring
  | SuccessFalse jsstring
  | SuccessTrue SearchResponse

record response =
  status :: nat
  body :: response_body

text \<open>The \<open>success\<close> field of a body: \<open>None\<close> when the body has no such field.\<close>

fun success_field :: "response_body \<Rightarrow> bool option" where
  "success_field (ErrorOnly e) = None"
| "success_field (SuccessFalse e) = Some False"
| "success_field (SuccessTrue r) = Some True"

text \<open>
  The handler's calls to its collaborators, in order. \<open>searchVideos\<close> and
  \<open>checkMultipleVideos\<close> are arguments of the handler: each returns its result or throws.
\<close>

datatype 'src call =
    SearchVideos jsstring "'src list" jsval
  | CheckMultipleVideos "video list" nat

definition internal_error :: "thrown \<Rightarrow> response" where
  "internal_error e =
     \<lparr>status = 500,
      body = SuccessFalse (case e of
                             ErrorObject message \<Rightarrow> message
                           | OtherValue \<Rightarrow> ascii ''Internal server error'')\<rparr>"

definition bad_request :: "jsstring \<Rightarrow> response" where
  "bad_request message = \<lparr>status = 400, body = ErrorOnly message\<rparr>"

text \<open>Destructuring \<open>null\<close> throws a TypeError; the message is the engine's (V8's here).\<close>

definition destructure_null :: thrown where
  "destructure_null =
     ErrorObject (ascii ''Cannot destructure property 'query' of 'body' as it is null.'')"

text \<open>The destructuring default \<open>page = 1\<close>: it applies when the body has no \<open>page\<close>.\<close>

definition request_page :: "SearchRequest \<Rightarrow> jsval" where
  "request_page b = (if body_page b = Undefined then Num 1 else body_page b)"

text \<open>The loop that groups the available videos by source, one step and the whole.\<close>

definition add_video :: "(jsstring, video list) jsmap \<Rightarrow> video \<Rightarrow> (jsstring, video list) jsmap" where
  "add_video videosBySource v =
     (let sourceId = source v;
          m = (if \<not> map_has videosBySource sourceId then map_set videosBySource sourceId []
               else videosBySource)
      in case map_get m sourceId of
           None \<Rightarrow> m
         | Some videos \<Rightarrow> map_set m sourceId (videos @ [v]))"

definition group_videos :: "video list \<Rightarrow> (jsstring, video list) jsmap" where
  "group_videos availableVideos = foldl add_video [] availableVideos"

definition build_response :: "SearchResult list \<Rightarrow> (jsstring, video list) jsmap \<Rightarrow> SearchResult list" where
  "build_response searchResults videosBySource =
     map (\<lambda>(sourceId, videos).
            \<lparr>sr_results = videos,
             sr_source = sourceId,
             sr_responseTime = (case find (\<lambda>sr. sr_source sr = sourceId) searchResults of
                                  None \<Rightarrow> None
                                | Some sr \<Rightarrow> sr_responseTime sr)\<rparr>)
         videosBySource"

definition source_stats :: "jsstring list \<Rightarrow> (jsstring, video list) jsmap \<Rightarrow> SourceStat list" where
  "source_stats sourceIds videosBySource =
     map (\<lambda>sid.
            \<lparr>sourceId = sid,
             sourceName = getSourceName sid,
             count = (case map_get videosBySource sid of
                        None \<Rightarrow> 0
                      | Some videos \<Rightarrow> length videos)\<rparr>)
         sourceIds"

definition POST ::
  "(jsstring \<Rightarrow> 'src option) \<Rightarrow>
   (jsstring \<Rightarrow> 'src list \<Rightarrow> jsval \<Rightarrow> thrown + SearchResult list) \<Rightarrow>
   (video list \<Rightarrow> nat \<Rightarrow> thrown + video list) \<Rightarrow>
   thrown + json_body \<Rightarrow> response \<times> 'src call list" where
  "POST getSourceById searchVideos checkMultipleVideos request_json =
     (case request_json of
        Inl e \<Rightarrow> (internal_error e, [])
      | Inr BodyNull \<Rightarrow> (internal_error destructure_null, [])
      | Inr (Body b) \<Rightarrow>
          let query = body_query b;
              sourceIds = body_sources b;
              page = request_page b
          in
          if \<not> truthy query \<or> \<not> is_string query \<or> length (trim (str_value query)) = 0
          then (bad_request (ascii ''Invalid or missing query parameter''), [])
          else if \<not> truthy sourceIds \<or> \<not> isArray sourceIds \<or> length (arr_value sourceIds) = 0
          then (bad_request (ascii ''At least one source must be specified''), [])
          else
            let sources = List.map_filter getSourceById (arr_value sourceIds) in
            if length sources = 0
            then (bad_request (ascii ''No valid sources found''), [])
            else
              let call1 = SearchVideos (trim (str_value query)) sources page in
              case searchVideos (trim (str_value query)) sources page of
                Inl e \<Rightarrow> (internal_error e, [call1])
              | Inr searchResults \<Rightarrow>
                  let allVideos = concat (map sr_results searchResults);
                      call2 = CheckMultipleVideos allVideos 8
                  in
                  case checkMultipleVideos allVideos 8 of
                    Inl e \<Rightarrow> (internal_error e, [call1, call2])
                  | Inr availableVideos \<Rightarrow>
                      let videosBySource = group_videos availableVideos;
                          response = build_response searchResults videosBySource;
                          stats = source_stats (arr_value sourceIds) videosBySource
                      in (\<lparr>status = 200,
                           body = SuccessTrue
                                    \<lparr>r_query = trim (str_value query),
                                     r_page = page,
                                     r_sources = response,
                                     totalResults = length availableVideos,
                                     sourceStats = stats\<rparr>\<rparr>,
                          [call1, call2]))"

text \<open>
  Modelled from the spec: \<open>checkMultipleVideos\<close> (lib/utils/source-checker) is not among
  the sources. Sections 4.3 and 4.4: every candidate is checked; a timeout or a network
  error is the verdict unavailable, never a raised failure; only the candidates whose
  verdict is available are forwarded, and in completion order, not submission order. So
  the checker's output holds the available candidates, each as often as the input holds
  it, in some order.
\<close>

definition checker_output :: "(video \<Rightarrow> bool) \<Rightarrow> video list \<Rightarrow> video list \<Rightarrow> bool" where
  "checker_output available candidates out \<longleftrightarrow> mset out = mset (filter available candidates)"

text \<open>How a SourceClient call fails (spec, section 4.1).\<close>

datatype source_error = SourceUnavailable | SourceMalformedResponse

text \<open>
  Modelled from the spec: the per-source part of \<open>searchVideos\<close> (lib/api/client), which
  is not among the sources. Sections 4.1 and 4.2: a SourceClient call returns the
  source's candidates and the elapsed time, or fails (unavailable, malformed response); a
  failure is swallowed, and the source is recorded with zero results and no elapsed time.
\<close>

definition source_result ::
  "('src \<Rightarrow> jsstring) \<Rightarrow> ('src \<Rightarrow> source_error + video list \<times> nat) \<Rightarrow> 'src \<Rightarrow> SearchResult" where
  "source_result source_id client s =
     (case client s of
        Inl e \<Rightarrow> \<lparr>sr_results = [], sr_source = source_id s, sr_responseTime = None\<rparr>
      | Inr (videos, elapsed) \<Rightarrow>
          \<lparr>sr_results = videos, sr_source = source_id s, sr_responseTime = Some elapsed\<rparr>)"

text \<open>
  Modelled from the spec: the result of \<open>searchVideos\<close> (lib/api/client), which is not
  among the sources. Section 4.2: one SourceClient call for every requested source
  descriptor, the per-source results collected as the sources complete. So the output
  holds the result of every requested source, once per request of it, in some order.
\<close>

definition search_output ::
  "('src \<Rightarrow> jsstring) \<Rightarrow> ('src \<Rightarrow> source_error + video list \<times> nat) \<Rightarrow> 'src list \<Rightarrow>
   SearchResult list \<Rightarrow> bool" where
  "search_output source_id client sources out \<longleftrightarrow>
     mset out = mset (map (source_result source_id client) sources)"

section \<open>The streaming search hook (useSearchStream, performSearch)\<close>

datatype stage = Searching | Checking

text \<open>An entry of the hook's results: the video of the event and the three added fields.\<close>

record client_video = video +
  cv_sourceName :: name_value
  isNew :: bool
  addedAt :: nat

record available_source =
  as_id :: jsstring
  as_name :: name_value
  as_count :: nat

text \<open>
  A line of the stream, as the loop body sees it: a line that does not start with
  \<open>data: \<close>, a line whose payload \<open>JSON.parse\<close> rejects, or a parsed event by its \<open>type\<close>
  (and, for \<open>progress\<close>, its \<open>stage\<close>) with the fields the loop reads.
\<close>

datatype stream_event =
    ProgressSearching nat
  | ProgressChecking nat nat
  | ProgressOther
  | Videos "video list" nat nat
  | Complete nat
  | ErrorEvent jsstring
  | OtherEvent

datatype line = NotData | Invalid | Data stream_event

text \<open>
  The hook's state variables, the two locals of a run (\<open>allVideos\<close>, \<open>sourceVideoCounts\<close>)
  and the calls made to \<open>onCacheUpdate\<close> and \<open>onUrlUpdate\<close>. The delayed callback that
  clears \<open>isNew\<close> 300 ms after a batch is shown is not part of the model.
\<close>

record search_run =
  loading :: bool
  results :: "client_video list"
  availableSources :: "available_source list"
  checkedSources :: nat
  searchStage :: stage
  checkedVideos :: nat
  totalVideos :: nat
  currentSource :: jsstring
  allVideos :: "client_video list"
  sourceVideoCounts :: "(jsstring, nat) jsmap"
  cache_updates :: "(jsstring \<times> client_video list \<times> available_source list) list"
  url_updates :: "jsstring list"

definition new_video :: "nat \<Rightarrow> video \<Rightarrow> client_video" where
  "new_video now v =
     \<lparr>vod_id = vod_id v, source = source v,
      cv_sourceName = getSourceName (source v), isNew = True, addedAt = now\<rparr>"

definition count_video :: "(jsstring, nat) jsmap \<Rightarrow> client_video \<Rightarrow> (jsstring, nat) jsmap" where
  "count_video counts v =
     (let n = (case map_get counts (source v) of None \<Rightarrow> 0 | Some c \<Rightarrow> c)
      in map_set counts (source v) (n + 1))"

definition sources_array :: "(jsstring, nat) jsmap \<Rightarrow> available_source list" where
  "sources_array counts =
     map (\<lambda>(sid, n). \<lparr>as_id = sid, as_name = getSourceName sid, as_count = n\<rparr>) counts"

text \<open>The body of the inner \<open>try\<close>: the new state, or what it throws.\<close>

fun handle_event :: "nat \<Rightarrow> jsstring \<Rightarrow> stream_event \<Rightarrow> search_run \<Rightarrow> thrown + search_run" where
  "handle_event now searchQuery (ProgressSearching n) st =
     Inr (st\<lparr>searchStage := Searching, checkedSources := n\<rparr>)"
| "handle_event now searchQuery (ProgressChecking cv tv) st =
     Inr (st\<lparr>searchStage := Checking, checkedVideos := cv, totalVideos := tv\<rparr>)"
| "handle_event now searchQuery ProgressOther st = Inr st"
| "handle_event now searchQuery (Videos vs cv tv) st =
     (let newVideos = map (new_video now) vs;
          all = allVideos st @ newVideos;
          counts = foldl count_video (sourceVideoCounts st) newVideos
      in Inr (st\<lparr>allVideos := all, results := all, checkedVideos := cv, totalVideos := tv,
                 sourceVideoCounts := counts, availableSources := sources_array counts\<rparr>))"
| "handle_event now searchQuery (Complete tv) st =
     Inr (st\<lparr>checkedVideos := tv, loading := False,
              cache_updates := cache_updates st @
                [(searchQuery, allVideos st, sources_array (sourceVideoCounts st))]\<rparr>)"
| "handle_event now searchQuery (ErrorEvent message) st = Inl (ErrorObject message)"
| "handle_event now searchQuery OtherEvent st = Inr st"

text \<open>
  One turn of \<open>for (const line of lines)\<close>: the \<open>continue\<close>, and the inner
  \<open>try { ... } catch (err) { }\<close>, whose empty handler takes whatever the body throws.
\<close>

definition process_line :: "jsstring \<Rightarrow> search_run \<Rightarrow> nat \<times> line \<Rightarrow> search_run" where
  "process_line searchQuery st timed_line =
     (case timed_line of
        (now, NotData) \<Rightarrow> st
      | (now, Invalid) \<Rightarrow> st
      | (now, Data ev) \<Rightarrow>
          (case handle_event now searchQuery ev st of
             Inl err \<Rightarrow> st
           | Inr st' \<Rightarrow> st'))"

text \<open>
  What the network gives a run: \<open>fetch\<close> rejects, the response is not ok, it has no body,
  or the complete lines of the stream in order, each with the clock at its processing
  (\<open>Date.now()\<close>, taken not to advance within one line), until \<open>read\<close> reports done or
  rejects (an abort).
\<close>

datatype read_end = Done | ReadRejected

datatype fetch_outcome =
    FetchRejected
  | NotOk
  | NoStream
  | Stream "(nat \<times> line) list" read_end

definition performSearch :: "jsstring \<Rightarrow> fetch_outcome \<Rightarrow> search_run \<Rightarrow> search_run" where
  "performSearch searchQuery outcome st =
     (if trim searchQuery = [] \<or> loading st then st
      else
        let st1 = st\<lparr>loading := True, results := [], availableSources := [],
                     checkedSources := 0, searchStage := Searching, checkedVideos := 0,
                     totalVideos := 0, allVideos := [], sourceVideoCounts := [],
                     url_updates := url_updates st @ [searchQuery]\<rparr>;
            st2 = (case outcome of
                     FetchRejected \<Rightarrow> st1\<lparr>loading := False\<rparr>
                   | NotOk \<Rightarrow> st1\<lparr>loading := False\<rparr>
                   | NoStream \<Rightarrow> st1\<lparr>loading := False\<rparr>
                   | Stream lines ending \<Rightarrow>
                       let st' = foldl (process_line searchQuery) st1 lines
                       in (case ending of
                             Done \<Rightarrow> st'
                           | ReadRejected \<Rightarrow> st'\<lparr>loading := False\<rparr>))
        in st2\<lparr>currentSource := []\<rparr>)"

text \<open>The state of the hook before its first search.\<close>

definition initial_run :: search_run where
  "initial_run =
     \<lparr>loading = False, results = [], availableSources = [], checkedSources = 0,
      searchStage = Searching, checkedVideos = 0, totalVideos = 0, currentSource = [],
      allVideos = [], sourceVideoCounts = [], cache_updates = [], url_updates = []\<rparr>"

text \<open>The identity of a candidate: its source and its external video id.\<close>

definition video_key :: "video \<Rightarrow> jsstring \<times> jsstring" where
  "video_key v = (source v, vod_id v)"

definition client_key :: "client_video \<Rightarrow> jsstring \<times> jsstring" where
  "client_key v = (source v, vod_id v)"

section \<open>The words of the claims\<close>

text \<open>
  A query that is missing, not a string, or empty after trimming; a sources list that is
  missing, not an array, or empty; a list of ids none of which resolves to a descriptor.
\<close>

definition query_rejected :: "jsval \<Rightarrow> bool" where
  "query_rejected q \<longleftrightarrow> q = Undefined \<or> \<not> is_string q \<or> trim (str_value q) = []"

definition sources_rejected :: "jsval \<Rightarrow> bool" where
  "sources_rejected s \<longleftrightarrow> s = Undefined \<or> \<not> isArray s \<or> arr_value s = []"

definition none_resolves :: "(jsstring \<Rightarrow> 'src option) \<Rightarrow> jsstring list \<Rightarrow> bool" where
  "none_resolves getSourceById ids \<longleftrightarrow> list_all (\<lambda>i. getSourceById i = None) ids"

text \<open>The configured display name of a source id, the id itself when it has none.\<close>

definition display_name :: "jsstring \<Rightarrow> jsstring" where
  "display_name sid = (case map_of sourceNames sid of None \<Rightarrow> sid | Some n \<Rightarrow> n)"

text \<open>
  The name of a source id in a response: the display name, but the inherited member for
  an id that names one.
\<close>

definition response_name :: "jsstring \<Rightarrow> name_value" where
  "response_name sid =
     (if sid \<in> set object_prototype_keys then Inherited sid else Name (display_name sid))"

text \<open>The videos a stream carries: those of its \<open>videos\<close> events, in order.\<close>

fun line_videos :: "line \<Rightarrow> video list" where
  "line_videos (Data (Videos vs cv tv)) = vs"
| "line_videos l = []"

definition streamed_videos :: "(nat \<times> line) list \<Rightarrow> video list" where
  "streamed_videos lines = concat (map (\<lambda>timed. line_videos (snd timed)) lines)"




section \<open>Example runs\<close>

text \<open>
  A registry that knows the ids \<open>dytt\<close> and \<open>ruyi\<close> (a descriptor is its id), a search in
  which every source returns one video (the per-source results in request order, or in the
  reverse order), the source client behind it, a checker that passes every video in the
  order given or in the reverse order, a request for a list of ids, and a source client
  with one failing source under the search of the spec.
\<close>

definition ex_video :: video where
  "ex_video = \<lparr>vod_id = ascii ''1'', source = ascii ''dytt''\<rparr>"

definition ex_getSourceById :: "jsstring \<Rightarrow> jsstring option" where
  "ex_getSourceById i = (if i = ascii ''dytt'' \<or> i = ascii ''ruyi'' then Some i else None)"

definition ex_searchVideos :: "jsstring \<Rightarrow> jsstring list \<Rightarrow> jsval \<Rightarrow> thrown + SearchResult list" where
  "ex_searchVideos q srcs page =
     Inr (map (\<lambda>s. \<lparr>sr_results = [\<lparr>vod_id = ascii ''1'', source = s\<rparr>], sr_source = s,
                     sr_responseTime = Some 50\<rparr>) srcs)"



definition ex_check_all :: "video list \<Rightarrow> nat \<Rightarrow> thrown + video list" where
  "ex_check_all vs cap = Inr vs"

definition ex_check_rev :: "video list \<Rightarrow> nat \<Rightarrow> thrown + video list" where
  "ex_check_rev vs cap = Inr (rev vs)"

definition ex_request :: "jsstring list \<Rightarrow> thrown + json_body" where
  "ex_request ids =
     Inr (Body \<lparr>body_query = Str (ascii '' matrix ''), body_sources = Arr ids,
                body_page = Undefined\<rparr>)"

definition ex_client :: "jsstring \<Rightarrow> source_error + video list \<times> nat" where
  "ex_client s =
     (if s = ascii ''dytt'' then Inr ([\<lparr>vod_id = ascii ''1'', source = s\<rparr>], 50)
      else Inl SourceUnavailable)"

definition ex_searchVideos_spec :: "jsstring \<Rightarrow> jsstring list \<Rightarrow> jsval \<Rightarrow> thrown + SearchResult list" where
  "ex_searchVideos_spec q srcs page = Inr (map (source_result (\<lambda>s. s) ex_client) srcs)"

definition ex_response :: SearchResponse where
  "ex_response =
     \<lparr>r_query = ascii ''matrix'', r_page = Num 1,
      r_sources = [\<lparr>sr_results = [\<lparr>vod_id = ascii ''1'', source = ascii ''dytt''\<rparr>],
                    sr_source = ascii ''dytt'', sr_responseTime = Some 50\<rparr>],
      totalResults = 1,
      sourceStats = [\<lparr>sourceId = ascii ''dytt'', sourceName = Name [0x7535, 0x5F71, 0x5929, 0x5802], count = 1\<rparr>,
                     \<lparr>sourceId = ascii ''zzz'', sourceName = Name (ascii ''zzz''), count = 0\<rparr>]\<rparr>"

section \<open>The search-history store: bound and distinctness\<close>

lemma addSearchHistory_length: "length h \<le> MAX_SEARCH_HISTORY \<Longrightarrow> length (addSearchHistory now q h) \<le> MAX_SEARCH_HISTORY"
  by (simp add: addSearchHistory_def Let_def)

lemma addSearchHistory_distinct:
  assumes "distinct (map query h)"
  shows "distinct (map query (addSearchHistory now q h))"
proof (cases "trim q = []")
  case True
  then show ?thesis using assms by (simp add: addSearchHistory_def)
next
  case False
  let ?f = "filter (\<lambda>item. query item \<noteq> trim q) h"
  have "distinct (map query ?f)" using assms by (simp add: distinct_map_filter)
  moreover have "trim q \<notin> set (map query ?f)" by auto
  ultimately have "distinct (map query (\<lparr>query = trim q, timestamp = now\<rparr> # ?f))" by simp
  then have "distinct (take MAX_SEARCH_HISTORY (map query (\<lparr>query = trim q, timestamp = now\<rparr> # ?f)))"
    by (rule distinct_take)
  then have "distinct (map query (take MAX_SEARCH_HISTORY (\<lparr>query = trim q, timestamp = now\<rparr> # ?f)))"
    by (simp only: take_map)
  then show ?thesis using False by (simp add: addSearchHistory_def Let_def)
qed

lemma store_step_inv:
  assumes "length h \<le> MAX_SEARCH_HISTORY" "distinct (map query h)"
  shows "length (store_step h op) \<le> MAX_SEARCH_HISTORY \<and> distinct (map query (store_step h op))"
proof (cases op)
  case (AddSearchHistory now q)
  then show ?thesis using assms addSearchHistory_length addSearchHistory_distinct by simp
next
  case (RemoveSearchHistory q)
  have "length (filter (\<lambda>item. query item \<noteq> q) h) \<le> length h" by simp
  then have "length (filter (\<lambda>item. query item \<noteq> q) h) \<le> MAX_SEARCH_HISTORY"
    using assms(1) by (rule le_trans)
  then show ?thesis using assms(2) RemoveSearchHistory
    by (simp add: removeSearchHistory_def distinct_map_filter)
next
  case ClearSearchHistory
  then show ?thesis by (simp add: clearSearchHistory_def)
qed

lemma foldl_store_inv:
  "length h \<le> MAX_SEARCH_HISTORY \<Longrightarrow> distinct (map query h) \<Longrightarrow>
   length (foldl store_step h ops) \<le> MAX_SEARCH_HISTORY \<and> distinct (map query (foldl store_step h ops))"
proof (induction ops arbitrary: h)
  case Nil
  then show ?case by simp
next
  case (Cons op ops)
  have "length (store_step h op) \<le> MAX_SEARCH_HISTORY \<and> distinct (map query (store_step h op))"
    using Cons.prems by (rule store_step_inv)
  then show ?case using Cons.IH by simp
qed

text \<open>
  C9. After every sequence of \<open>addSearchHistory\<close>, \<open>removeSearchHistory\<close> and
  \<open>clearSearchHistory\<close> on the store, \<open>searchHistory\<close> has at most 20 entries and no two
  entries have the same query; on any state, \<open>addSearchHistory\<close> with a query that trims
  to the empty string leaves the list unchanged, and otherwise the list's first entry
  (index 0) is the trimmed query.
\<close>

theorem search_history_invariant:
  "length (run_store ops) \<le> 20 \<and> distinct (map query (run_store ops)) \<and>
   (trim q = [] \<longrightarrow> addSearchHistory now q h = h) \<and>
   (trim q \<noteq> [] \<longrightarrow>
      (\<exists>rest. addSearchHistory now q h = \<lparr>query = trim q, timestamp = now\<rparr> # rest))"
proof -
  have "length (run_store ops) \<le> MAX_SEARCH_HISTORY \<and> distinct (map query (run_store ops))"
    unfolding run_store_def by (rule foldl_store_inv) simp_all
  moreover have "trim q = [] \<longrightarrow> addSearchHistory now q h = h"
    by (simp add: addSearchHistory_def)
  moreover have "trim q \<noteq> [] \<longrightarrow>
      (\<exists>rest. addSearchHistory now q h = \<lparr>query = trim q, timestamp = now\<rparr> # rest)"
    by (simp add: addSearchHistory_def Let_def MAX_SEARCH_HISTORY_def)
  ultimately show ?thesis by (simp add: MAX_SEARCH_HISTORY_def)
qed

theorem search_history_invariant_witness:
  "trim (ascii '' a '') \<noteq> [] \<and> trim (ascii ''  '') = [] \<and>
   run_store [AddSearchHistory 1 (ascii '' a ''), AddSearchHistory 2 (ascii ''b''),
              AddSearchHistory 3 (ascii ''a'')]
     = [\<lparr>query = ascii ''a'', timestamp = 3\<rparr>, \<lparr>query = ascii ''b'', timestamp = 2\<rparr>] \<and>
   length (run_store [AddSearchHistory 1 (ascii '' a ''), AddSearchHistory 2 (ascii ''b''),
              AddSearchHistory 3 (ascii ''a'')]) \<le> 20 \<and>
   addSearchHistory 4 (ascii '' a '') [\<lparr>query = ascii ''b'', timestamp = 2\<rparr>]
     = [\<lparr>query = ascii ''a'', timestamp = 4\<rparr>, \<lparr>query = ascii ''b'', timestamp = 2\<rparr>] \<and>
   addSearchHistory 4 (ascii ''  '') [\<lparr>query = ascii ''b'', timestamp = 2\<rparr>]
     = [\<lparr>query = ascii ''b'', timestamp = 2\<rparr>]"
  using search_history_invariant [of "[AddSearchHistory 1 (ascii '' a ''), AddSearchHistory 2 (ascii ''b''),
              AddSearchHistory 3 (ascii ''a'')]" "ascii '' a ''" 4 "[\<lparr>query = ascii ''b'', timestamp = 2\<rparr>]"]
  by (simp add: run_store_def addSearchHistory_def trim_def is_js_space_def ascii_def
      MAX_SEARCH_HISTORY_def Let_def)

section \<open>Episode parsing: the fields of an episode\<close>

lemma split_on_not_Nil: "split_on c s \<noteq> []"
  by (induction s) (auto split: list.splits)

lemma split_on_unfold:
  "split_on c s = text_before c s #
     (if c \<in> set s then split_on c (text_after c s) else [])"
proof (induction s)
  case Nil
  then show ?case by (simp add: text_before_def text_after_def)
next
  case (Cons x xs)
  show ?case
  proof (cases "x = c")
    case True
    then show ?thesis by (simp add: text_before_def text_after_def)
  next
    case False
    then show ?thesis using Cons.IH
      by (simp add: text_before_def text_after_def split: list.splits)
  qed
qed

lemma split_on_join: "join c (split_on c s) = s"
proof (induction s)
  case Nil
  then show ?case by simp
next
  case (Cons x xs)
  obtain f fs where fs: "split_on c xs = f # fs"
    using split_on_not_Nil [of c xs] by (cases "split_on c xs") auto
  show ?case using Cons.IH fs by (cases fs) auto
qed

lemma split_on_no_sep: "f \<in> set (split_on c s) \<Longrightarrow> c \<notin> set f"
  by (induction s arbitrary: f) (auto split: if_splits list.splits)

lemma nth_opt_split_0: "nth_opt (split_on c s) 0 = Some (text_before c s)"
  by (subst split_on_unfold) simp

lemma nth_opt_split_1:
  "nth_opt (split_on c s) (Suc 0) =
     (if c \<in> set s then Some (text_before c (text_after c s)) else None)"
proof (cases "c \<in> set s")
  case True
  have "split_on c s = text_before c s # split_on c (text_after c s)"
    using True by (subst split_on_unfold) simp
  moreover have "nth_opt (split_on c (text_after c s)) 0 = Some (text_before c (text_after c s))"
    by (rule nth_opt_split_0)
  ultimately show ?thesis using True by simp
next
  case False
  then have "split_on c s = [text_before c s]"
    by (subst split_on_unfold) simp
  then show ?thesis using False by simp
qed

lemma text_before_after_absent:
  assumes "c \<notin> set s"
  shows "text_before c (text_after c s) = []"
proof -
  have "dropWhile (\<lambda>x. x \<noteq> c) s = []"
    using assms by (induction s) auto
  then show ?thesis
    unfolding text_before_def text_after_def by (simp only: drop_Nil takeWhile.simps)
qed

lemma parseEpisode_fields:
  "parseEpisode i seg =
     \<lparr>name = (if text_before c_dollar seg = [] then ascii ''Episode '' @ show_nat (i + 1)
               else text_before c_dollar seg),
      url = cleanUrl (text_before c_dollar (text_after c_dollar seg)),
      index = i\<rparr>"
  by (simp add: parseEpisode_def Let_def nth_opt_split_0 nth_opt_split_1 text_before_after_absent)

lemma parseEpisodes_segments:
  "parseEpisodes playUrl = map (\<lambda>(i, seg). parseEpisode i seg) (enumerate 0 (segments playUrl))"
  by (simp add: parseEpisodes_def segments_def)

text \<open>
  C10, as amended. \<open>parseEpisodes\<close> returns the empty list for the empty string; for every
  string it returns one episode per non-empty \<open>#\<close>-separated segment, and the episode at
  position \<open>i\<close> has index \<open>i\<close>, as name the text before the first \<open>$\<close> of its segment, or
  \<open>Episode i+1\<close> when that text is empty, and as url the second \<open>$\<close>-separated field of
  the segment (the text between the first \<open>$\<close> and the next one or the segment's end,
  empty when there is no \<open>$\<close>), cleaned by the left-to-right replacement of a code unit
  other than \<open>:\<close> followed by \<open>//\<close>.
\<close>

theorem parseEpisodes_fields:
  "parseEpisodes [] = [] \<and>
   length (parseEpisodes playUrl) = length (segments playUrl) \<and>
   (\<forall>i < length (segments playUrl).
      parseEpisodes playUrl ! i =
        \<lparr>name = (if text_before c_dollar (segments playUrl ! i) = []
                  then ascii ''Episode '' @ show_nat (i + 1)
                  else text_before c_dollar (segments playUrl ! i)),
         url = cleanUrl (text_before c_dollar (text_after c_dollar (segments playUrl ! i))),
         index = i\<rparr>)"
proof -
  have "parseEpisodes [] = []" by (simp add: parseEpisodes_def)
  moreover have "length (parseEpisodes playUrl) = length (segments playUrl)"
    by (simp add: parseEpisodes_segments)
  moreover have "\<forall>i < length (segments playUrl).
      parseEpisodes playUrl ! i = parseEpisode i (segments playUrl ! i)"
    by (simp add: parseEpisodes_segments nth_enumerate_eq)
  ultimately show ?thesis by (simp add: parseEpisode_fields)
qed

theorem parseEpisodes_fields_witness:
  "(1::nat) < length (segments (ascii ''#$http://x//y#q$'')) \<and>
   parseEpisodes (ascii ''#$http://x//y#q$'') ! 0 =
      \<lparr>name = ascii ''Episode 1'', url = ascii ''http://x/y'', index = 0\<rparr> \<and>
   parseEpisodes (ascii ''#$http://x//y#q$'') ! 1 =
      \<lparr>name = ascii ''q'', url = [], index = 1\<rparr>"
  using parseEpisodes_fields [of "ascii ''#$http://x//y#q$''"]
  by (simp add: segments_def text_before_def text_after_def ascii_def c_hash_def c_dollar_def
      c_slash_def c_colon_def show_nat.simps)

text \<open>
  C10 as stated fails on a segment with two \<open>$\<close>: for \<open>a$b$c\<close> the url is \<open>b\<close>, neither the
  text after the first \<open>$\<close> (\<open>b$c\<close>) nor the text after the last one (\<open>c\<close>).
\<close>

theorem parseEpisodes_url_counterexample:
  "url (parseEpisodes (ascii ''a$b$c'') ! 0) = ascii ''b'' \<and>
   cleanUrl (text_after c_dollar (ascii ''a$b$c'')) = ascii ''b$c'' \<and>
   cleanUrl (text_after_last c_dollar (ascii ''a$b$c'')) = ascii ''c''"
  by (simp add: parseEpisodes_def parseEpisode_def text_after_def text_after_last_def ascii_def
      c_hash_def c_dollar_def c_slash_def c_colon_def enumerate_eq_zip)

section \<open>The batch search route: grouping\<close>

lemma map_of_map_set: "map_of (map_set m k v) = (map_of m)(k \<mapsto> v)"
  by (induction m) (auto simp: fun_eq_iff)

lemma keys_map_set:
  "map fst (map_set m k v) = (if k \<in> fst ` set m then map fst m else map fst m @ [k])"
  by (induction m) force+

lemma key_set_map_set: "fst ` set (map_set m k v) = insert k (fst ` set m)"
proof -
  have "set (map fst (map_set m k v)) = insert k (set (map fst m))"
    by (simp only: keys_map_set) auto
  then show ?thesis by simp
qed

lemma values_map_set_new:
  "map_of m k = None \<Longrightarrow> concat (map snd (map_set m k new)) = concat (map snd m) @ new"
  by (induction m) (auto split: if_splits)

lemma values_map_set_old:
  "map_of m k = Some old \<Longrightarrow>
   mset (concat (map snd (map_set m k new))) + mset old = mset (concat (map snd m)) + mset new"
  by (induction m) (auto split: if_splits)

lemma map_of_add_video:
  "map_of (add_video m v) k =
     (if k = source v then Some ((case map_of m k of None \<Rightarrow> [] | Some xs \<Rightarrow> xs) @ [v])
      else map_of m k)"
  by (auto simp: add_video_def Let_def map_has_def map_get_def map_of_map_set split: option.splits)

lemma keys_add_video:
  "map fst (add_video m v) =
     (if source v \<in> fst ` set m then map fst m else map fst m @ [source v])"
proof (cases "map_of m (source v)")
  case None
  then have absent: "source v \<notin> fst ` set m"
    by (simp add: map_of_eq_None_iff)
  have "add_video m v = map_set (map_set m (source v) []) (source v) [v]"
    using None by (simp add: add_video_def Let_def map_has_def map_get_def map_of_map_set)
  then show ?thesis using absent by (simp add: keys_map_set key_set_map_set)
next
  case (Some old)
  then have present: "source v \<in> fst ` set m"
    by (metis map_of_eq_None_iff option.distinct(1))
  have "add_video m v = map_set m (source v) (old @ [v])"
    using Some by (simp add: add_video_def Let_def map_has_def map_get_def)
  then show ?thesis using present by (simp add: keys_map_set)
qed

lemma values_add_video:
  "mset (concat (map snd (add_video m v))) = mset (concat (map snd m)) + {#v#}"
proof (cases "map_of m (source v)")
  case None
  have "map_of (map_set m (source v) []) (source v) = Some []"
    by (simp add: map_of_map_set)
  then have "mset (concat (map snd (map_set (map_set m (source v) []) (source v) [v]))) + mset []
      = mset (concat (map snd (map_set m (source v) []))) + mset [v]"
    by (rule values_map_set_old)
  then show ?thesis using None
    by (simp add: add_video_def Let_def map_has_def map_get_def map_of_map_set values_map_set_new)
next
  case (Some old)
  then have "mset (concat (map snd (map_set m (source v) (old @ [v])))) + mset old
      = mset (concat (map snd m)) + mset (old @ [v])"
    by (rule values_map_set_old)
  then show ?thesis using Some
    by (simp add: add_video_def Let_def map_has_def map_get_def)
qed

lemma map_of_foldl_add_video:
  "map_of (foldl add_video m vs) k =
     (case map_of m k of
        None \<Rightarrow> if k \<in> source ` set vs then Some (filter (\<lambda>v. source v = k) vs) else None
      | Some xs \<Rightarrow> Some (xs @ filter (\<lambda>v. source v = k) vs))"
  by (induction vs arbitrary: m) (auto simp: map_of_add_video split: option.splits)

lemma distinct_keys_foldl_add_video:
  "distinct (map fst m) \<Longrightarrow> distinct (map fst (foldl add_video m vs))"
  by (induction vs arbitrary: m) (auto simp: keys_add_video)

lemma values_foldl_add_video:
  "mset (concat (map snd (foldl add_video m vs))) = mset (concat (map snd m)) + mset vs"
  by (induction vs arbitrary: m) (auto simp: values_add_video)

lemma group_videos_get:
  "map_get (group_videos vs) k =
     (if k \<in> source ` set vs then Some (filter (\<lambda>v. source v = k) vs) else None)"
  by (simp add: group_videos_def map_get_def map_of_foldl_add_video)

lemma group_videos_count:
  "(case map_get (group_videos vs) k of None \<Rightarrow> 0 | Some videos \<Rightarrow> length videos)
     = length (filter (\<lambda>v. source v = k) vs)"
proof (cases "k \<in> source ` set vs")
  case True
  then show ?thesis by (simp add: group_videos_get)
next
  case False
  then have "filter (\<lambda>v. source v = k) vs = []"
    by (auto simp: filter_empty_conv)
  then show ?thesis using False by (simp add: group_videos_get)
qed

lemma group_videos_values: "mset (concat (map snd (group_videos vs))) = mset vs"
  by (simp add: group_videos_def values_foldl_add_video)

lemma group_videos_keys: "fst ` set (group_videos vs) = source ` set vs"
proof -
  have "dom (map_of (group_videos vs)) = source ` set vs"
    using group_videos_get [of vs] by (auto simp: map_get_def dom_def split: if_splits)
  then show ?thesis by (simp add: dom_map_of_conv_image_fst)
qed

lemma build_response_results:
  "map sr_results (build_response srs m) = map snd m"
  by (simp add: build_response_def case_prod_unfold)

lemma build_response_sources:
  "map sr_source (build_response srs m) = map fst m"
  by (simp add: build_response_def case_prod_unfold)

lemma source_stats_group:
  "source_stats ids (group_videos vs) =
     map (\<lambda>sid. \<lparr>sourceId = sid, sourceName = getSourceName sid,
                  count = length (filter (\<lambda>v. source v = sid) vs)\<rparr>) ids"
  by (simp add: source_stats_def group_videos_count)

lemma mset_concat_map_cong:
  assumes "mset xs = mset ys"
  shows "mset (concat (map f xs)) = mset (concat (map f ys))"
proof -
  have "\<And>zs. mset (concat (map f zs)) = (\<Sum>z\<in>#mset zs. mset (f z))"
    by (induct_tac zs) simp_all
  then show ?thesis using assms by simp
qed

section \<open>The batch search route: the paths of POST\<close>

lemma trim_Nil: "trim [] = []"
  by (simp add: trim_def)

lemma map_filter_Nil_iff: "List.map_filter f xs = [] \<longleftrightarrow> list_all (\<lambda>x. f x = None) xs"
  by (induction xs) (auto simp: List.map_filter_simps split: option.splits)

lemma query_check:
  "(\<not> truthy q \<or> \<not> is_string q \<or> length (trim (str_value q)) = 0) \<longleftrightarrow> query_rejected q"
  by (cases q) (auto simp: query_rejected_def trim_Nil)

lemma sources_check:
  "(\<not> truthy s \<or> \<not> isArray s \<or> length (arr_value s) = 0) \<longleftrightarrow> sources_rejected s"
  by (cases s) (auto simp: sources_rejected_def)

lemma POST_query_rejected:
  "query_rejected (body_query b) \<Longrightarrow>
   POST g sv cm (Inr (Body b)) = (bad_request (ascii ''Invalid or missing query parameter''), [])"
  using query_check [of "body_query b"] by (simp add: POST_def Let_def)

lemma POST_sources_rejected:
  "\<not> query_rejected (body_query b) \<Longrightarrow> sources_rejected (body_sources b) \<Longrightarrow>
   POST g sv cm (Inr (Body b)) = (bad_request (ascii ''At least one source must be specified''), [])"
  using query_check [of "body_query b"] sources_check [of "body_sources b"]
  by (simp add: POST_def Let_def)

lemma POST_none_resolves:
  "\<not> query_rejected (body_query b) \<Longrightarrow> \<not> sources_rejected (body_sources b) \<Longrightarrow>
   none_resolves g (arr_value (body_sources b)) \<Longrightarrow>
   POST g sv cm (Inr (Body b)) = (bad_request (ascii ''No valid sources found''), [])"
  using query_check [of "body_query b"] sources_check [of "body_sources b"]
  by (simp add: POST_def Let_def none_resolves_def map_filter_Nil_iff)

lemma POST_search_throws:
  "\<not> query_rejected (body_query b) \<Longrightarrow> \<not> sources_rejected (body_sources b) \<Longrightarrow>
   \<not> none_resolves g (arr_value (body_sources b)) \<Longrightarrow>
   sv (trim (str_value (body_query b))) (List.map_filter g (arr_value (body_sources b)))
      (request_page b) = Inl e \<Longrightarrow>
   POST g sv cm (Inr (Body b)) =
     (internal_error e,
      [SearchVideos (trim (str_value (body_query b)))
         (List.map_filter g (arr_value (body_sources b))) (request_page b)])"
  using query_check [of "body_query b"] sources_check [of "body_sources b"]
  by (simp add: POST_def Let_def none_resolves_def map_filter_Nil_iff)

lemma POST_check_throws:
  "\<not> query_rejected (body_query b) \<Longrightarrow> \<not> sources_rejected (body_sources b) \<Longrightarrow>
   \<not> none_resolves g (arr_value (body_sources b)) \<Longrightarrow>
   sv (trim (str_value (body_query b))) (List.map_filter g (arr_value (body_sources b)))
      (request_page b) = Inr srs \<Longrightarrow>
   cm (concat (map sr_results srs)) 8 = Inl e \<Longrightarrow>
   POST g sv cm (Inr (Body b)) =
     (internal_error e,
      [SearchVideos (trim (str_value (body_query b)))
         (List.map_filter g (arr_value (body_sources b))) (request_page b),
       CheckMultipleVideos (concat (map sr_results srs)) 8])"
  using query_check [of "body_query b"] sources_check [of "body_sources b"]
  by (simp add: POST_def Let_def none_resolves_def map_filter_Nil_iff)

lemma POST_success_path:
  "\<not> query_rejected (body_query b) \<Longrightarrow> \<not> sources_rejected (body_sources b) \<Longrightarrow>
   \<not> none_resolves g (arr_value (body_sources b)) \<Longrightarrow>
   sv (trim (str_value (body_query b))) (List.map_filter g (arr_value (body_sources b)))
      (request_page b) = Inr srs \<Longrightarrow>
   cm (concat (map sr_results srs)) 8 = Inr avail \<Longrightarrow>
   POST g sv cm (Inr (Body b)) =
     (\<lparr>status = 200,
       body = SuccessTrue
                \<lparr>r_query = trim (str_value (body_query b)),
                 r_page = request_page b,
                 r_sources = build_response srs (group_videos avail),
                 totalResults = length avail,
                 sourceStats = source_stats (arr_value (body_sources b)) (group_videos avail)\<rparr>\<rparr>,
      [SearchVideos (trim (str_value (body_query b)))
         (List.map_filter g (arr_value (body_sources b))) (request_page b),
       CheckMultipleVideos (concat (map sr_results srs)) 8])"
  using query_check [of "body_query b"] sources_check [of "body_sources b"]
  by (simp add: POST_def Let_def none_resolves_def map_filter_Nil_iff)

lemma POST_success_inv:
  assumes "POST g sv cm req = (resp, calls)" and "body resp = SuccessTrue r"
  obtains b srs avail where
    "req = Inr (Body b)"
    "\<not> query_rejected (body_query b)" "\<not> sources_rejected (body_sources b)"
    "\<not> none_resolves g (arr_value (body_sources b))"
    "sv (trim (str_value (body_query b))) (List.map_filter g (arr_value (body_sources b)))
      (request_page b) = Inr srs"
    "cm (concat (map sr_results srs)) 8 = Inr avail"
proof (cases req)
  case (Inl e)
  then show ?thesis using assms by (auto simp: POST_def internal_error_def)
next
  case (Inr jb)
  show ?thesis
  proof (cases jb)
    case BodyNull
    then show ?thesis using assms Inr by (auto simp: POST_def internal_error_def)
  next
    case (Body b)
    note req = Inr [unfolded Body]
    show ?thesis
    proof (cases "query_rejected (body_query b)")
      case True
      then show ?thesis using assms req by (auto simp: POST_query_rejected bad_request_def)
    next
      case q: False
      show ?thesis
      proof (cases "sources_rejected (body_sources b)")
        case True
        then show ?thesis using assms req q by (auto simp: POST_sources_rejected bad_request_def)
      next
        case s: False
        show ?thesis
        proof (cases "none_resolves g (arr_value (body_sources b))")
          case True
          then show ?thesis using assms req q s by (auto simp: POST_none_resolves bad_request_def)
        next
          case n: False
          show ?thesis
          proof (cases "sv (trim (str_value (body_query b)))
              (List.map_filter g (arr_value (body_sources b))) (request_page b)")
            case (Inl e)
            then show ?thesis using assms req q s n
              by (auto simp: POST_search_throws internal_error_def)
          next
            case srs: (Inr srs)
            show ?thesis
            proof (cases "cm (concat (map sr_results srs)) 8")
              case (Inl e)
              then show ?thesis using assms req q s n srs
                by (auto simp: POST_check_throws internal_error_def)
            next
              case (Inr avail)
              then show ?thesis using that req q s n srs by blast
            qed
          qed
        qed
      qed
    qed
  qed
qed

section \<open>The batch search route: the order of the sources array\<close>










section \<open>The batch search route: validation and the successful response\<close>

text \<open>
  C2, as amended. For every POST request whose body parses to a JSON value other than
  \<open>null\<close>, in which the query is missing, not a string, or empty after trimming, or the
  sources list is missing, not an array, or empty, or no requested id resolves through
  \<open>getSourceById\<close>, the handler answers with status 400 and calls neither \<open>searchVideos\<close>
  nor \<open>checkMultipleVideos\<close>. When the body is \<open>null\<close> or does not parse, the handler
  answers with status 500, again without either call.
\<close>

theorem POST_bad_request:
  assumes "query_rejected (body_query b) \<or> sources_rejected (body_sources b) \<or>
           none_resolves getSourceById (arr_value (body_sources b))"
  shows "status (fst (POST getSourceById searchVideos checkMultipleVideos (Inr (Body b)))) = 400 \<and>
         snd (POST getSourceById searchVideos checkMultipleVideos (Inr (Body b))) = [] \<and>
         status (fst (POST getSourceById searchVideos checkMultipleVideos (Inr BodyNull))) = 500 \<and>
         snd (POST getSourceById searchVideos checkMultipleVideos (Inr BodyNull)) = [] \<and>
         status (fst (POST getSourceById searchVideos checkMultipleVideos (Inl e))) = 500 \<and>
         snd (POST getSourceById searchVideos checkMultipleVideos (Inl e)) = []"
proof -
  have other: "status (fst (POST getSourceById searchVideos checkMultipleVideos (Inr BodyNull))) = 500 \<and>
         snd (POST getSourceById searchVideos checkMultipleVideos (Inr BodyNull)) = [] \<and>
         status (fst (POST getSourceById searchVideos checkMultipleVideos (Inl e))) = 500 \<and>
         snd (POST getSourceById searchVideos checkMultipleVideos (Inl e)) = []"
    by (simp add: POST_def internal_error_def)
  have "status (fst (POST getSourceById searchVideos checkMultipleVideos (Inr (Body b)))) = 400 \<and>
         snd (POST getSourceById searchVideos checkMultipleVideos (Inr (Body b))) = []"
  proof (cases "query_rejected (body_query b)")
  case True
  then show ?thesis by (simp add: POST_query_rejected bad_request_def)
next
  case q: False
  show ?thesis
  proof (cases "sources_rejected (body_sources b)")
    case True
    then show ?thesis using q by (simp add: POST_sources_rejected bad_request_def)
  next
    case False
    then have "none_resolves getSourceById (arr_value (body_sources b))"
      using q assms by simp
    then show ?thesis using q False by (simp add: POST_none_resolves bad_request_def)
  qed
  qed
  then show ?thesis using other by simp
qed

theorem POST_bad_request_witness:
  "query_rejected (Str (ascii ''   '')) \<and>
   status (fst (POST (\<lambda>i. Some i) (\<lambda>q s p. Inr []) (\<lambda>vs n. Inr vs)
     (Inr (Body \<lparr>body_query = Str (ascii ''   ''), body_sources = Arr [ascii ''dytt''],
                 body_page = Undefined\<rparr>)))) = 400 \<and>
   snd (POST (\<lambda>i. Some i) (\<lambda>q s p. Inr []) (\<lambda>vs n. Inr vs)
     (Inr (Body \<lparr>body_query = Str (ascii ''   ''), body_sources = Arr [ascii ''dytt''],
                 body_page = Undefined\<rparr>))) = ([] :: jsstring call list)"
proof -
  have h: "query_rejected (Str (ascii ''   ''))"
    by (simp add: query_rejected_def trim_def is_js_space_def ascii_def)
  show ?thesis
    using h POST_bad_request [of "\<lparr>body_query = Str (ascii ''   ''), body_sources = Arr [ascii ''dytt''],
                 body_page = Undefined\<rparr>" "\<lambda>i. Some i" "\<lambda>q s p. Inr []" "\<lambda>vs n. Inr vs"]
    by simp
qed

text \<open>
  C2 as stated fails where the request has no query because its body is \<open>null\<close> or is not
  JSON: destructuring, or \<open>request.json()\<close>, throws, and the \<open>catch\<close> answers 500.
\<close>

theorem POST_null_body_counterexample:
  "status (fst (POST (\<lambda>i. Some i) (\<lambda>q s p. Inr []) (\<lambda>vs n. Inr vs) (Inr BodyNull))) \<noteq> 400 \<and>
   status (fst (POST (\<lambda>i. Some i) (\<lambda>q s p. Inr []) (\<lambda>vs n. Inr vs) (Inr BodyNull))) = 500 \<and>
   status (fst (POST (\<lambda>i. Some i) (\<lambda>q s p. Inr []) (\<lambda>vs n. Inr vs)
                  (Inl (ErrorObject (ascii ''Unexpected end of JSON input''))))) = 500"
  by (simp add: POST_def internal_error_def)

text \<open>
  C3. On a request that fails validation (here an empty query) the handler's body is
  \<open>{ error }\<close> with status 400: the body has no \<open>success\<close> field, where the claim has
  \<open>{ success: false, error }\<close>, the body the handler's own \<open>catch\<close> gives.
\<close>

theorem POST_validation_failure_body:
  "POST getSourceById searchVideos checkMultipleVideos
     (Inr (Body \<lparr>body_query = Str [], body_sources = Arr [ascii ''dytt''], body_page = Undefined\<rparr>))
   = (\<lparr>status = 400, body = ErrorOnly (ascii ''Invalid or missing query parameter'')\<rparr>, []) \<and>
   success_field (ErrorOnly (ascii ''Invalid or missing query parameter'')) = None"
  by (simp add: POST_def Let_def bad_request_def trim_def)

lemma sourceNames_nonempty: "map_of sourceNames sid = Some n \<Longrightarrow> n \<noteq> []"
proof -
  assume "map_of sourceNames sid = Some n"
  then have "(sid, n) \<in> set sourceNames" by (rule map_of_SomeD)
  then show "n \<noteq> []" by (auto simp: sourceNames_def ascii_def)
qed

lemma inherited_keys_apart: "set object_prototype_keys \<inter> fst ` set sourceNames = {}"
  unfolding object_prototype_keys_def sourceNames_def ascii_def by simp

lemma inherited_not_in_table:
  assumes "sid \<in> set object_prototype_keys"
  shows "map_of sourceNames sid = None"
proof -
  have "sid \<notin> fst ` set sourceNames"
    using assms inherited_keys_apart by blast
  then show ?thesis by (simp add: map_of_eq_None_iff)
qed

lemma getSourceName_response: "getSourceName sid = response_name sid"
proof (cases "map_of sourceNames sid")
  case None
  then show ?thesis by (simp add: getSourceName_def response_name_def display_name_def)
next
  case (Some n)
  then have "sid \<notin> set object_prototype_keys"
    using inherited_not_in_table [of sid] by auto
  then show ?thesis
    using Some sourceNames_nonempty [of sid n]
    by (simp add: getSourceName_def response_name_def display_name_def)
qed

text \<open>
  The shape of a successful response. In every successful run of POST (the body is the
  \<open>success: true\<close> one) the request had a string query and an array of source ids, both
  collaborators returned, the status is 200, \<open>query\<close> is the trimmed request query,
  \<open>totalResults\<close> is the number of videos \<open>checkMultipleVideos\<close> returned, and
  \<open>sourceStats\<close> has one entry per requested id, in request order, with, as count, the
  number of returned videos whose source is that id, and as name the id's display name
  (the id itself when it has none), except for an id that names a member inherited from
  \<open>Object.prototype\<close>, whose name is that member.
\<close>

theorem POST_success_shape:
  assumes "POST getSourceById searchVideos checkMultipleVideos request_json = (resp, calls)"
      and "body resp = SuccessTrue r"
  shows "\<exists>b q ids searchResults availableVideos.
           request_json = Inr (Body b) \<and> body_query b = Str q \<and> body_sources b = Arr ids \<and>
           searchVideos (trim q) (List.map_filter getSourceById ids) (request_page b)
             = Inr searchResults \<and>
           checkMultipleVideos (concat (map sr_results searchResults)) 8 = Inr availableVideos \<and>
           status resp = 200 \<and> success_field (body resp) = Some True \<and>
           r_query r = trim q \<and>
           totalResults r = length availableVideos \<and>
           sourceStats r =
             map (\<lambda>sid. \<lparr>sourceId = sid, sourceName = response_name sid,
                          count = length (filter (\<lambda>v. source v = sid) availableVideos)\<rparr>) ids"
proof -
  from assms obtain b srs avail where
    req: "request_json = Inr (Body b)" and
    q: "\<not> query_rejected (body_query b)" and s: "\<not> sources_rejected (body_sources b)" and
    n: "\<not> none_resolves getSourceById (arr_value (body_sources b))" and
    srs: "searchVideos (trim (str_value (body_query b)))
            (List.map_filter getSourceById (arr_value (body_sources b))) (request_page b) = Inr srs" and
    avail: "checkMultipleVideos (concat (map sr_results srs)) 8 = Inr avail"
    by (rule POST_success_inv)
  obtain qs where qs: "body_query b = Str qs"
    using q by (cases "body_query b") (auto simp: query_rejected_def)
  obtain ids where ids: "body_sources b = Arr ids"
    using s by (cases "body_sources b") (auto simp: sources_rejected_def)
  have post: "POST getSourceById searchVideos checkMultipleVideos (Inr (Body b)) =
     (\<lparr>status = 200,
       body = SuccessTrue
                \<lparr>r_query = trim (str_value (body_query b)),
                 r_page = request_page b,
                 r_sources = build_response srs (group_videos avail),
                 totalResults = length avail,
                 sourceStats = source_stats (arr_value (body_sources b)) (group_videos avail)\<rparr>\<rparr>,
      [SearchVideos (trim (str_value (body_query b)))
         (List.map_filter getSourceById (arr_value (body_sources b))) (request_page b),
       CheckMultipleVideos (concat (map sr_results srs)) 8])"
    using q s n srs avail by (rule POST_success_path)
  have resp: "resp = \<lparr>status = 200,
       body = SuccessTrue
                \<lparr>r_query = trim qs,
                 r_page = request_page b,
                 r_sources = build_response srs (group_videos avail),
                 totalResults = length avail,
                 sourceStats = source_stats ids (group_videos avail)\<rparr>\<rparr>"
    using assms(1) post req qs ids by simp
  then have r: "r = \<lparr>r_query = trim qs,
                 r_page = request_page b,
                 r_sources = build_response srs (group_videos avail),
                 totalResults = length avail,
                 sourceStats = source_stats ids (group_videos avail)\<rparr>"
    using assms(2) by simp
  have "sourceStats r =
             map (\<lambda>sid. \<lparr>sourceId = sid, sourceName = response_name sid,
                          count = length (filter (\<lambda>v. source v = sid) avail)\<rparr>) ids"
    using r by (simp add: source_stats_group getSourceName_response)
  moreover have "status resp = 200 \<and> success_field (body resp) = Some True"
    using resp by simp
  moreover have "r_query r = trim qs \<and> totalResults r = length avail"
    using r by simp
  ultimately show ?thesis using req qs ids srs avail by auto
qed

section \<open>The streaming search hook\<close>

lemma client_key_new_video: "client_key (new_video now v) = video_key v"
  by (simp add: client_key_def video_key_def new_video_def)

lemma process_line_allVideos:
  "allVideos (process_line q st ln) = allVideos st @ map (new_video (fst ln)) (line_videos (snd ln))"
proof (cases ln)
  case (Pair now l)
  show ?thesis
  proof (cases l)
    case (Data ev)
    then show ?thesis using Pair by (cases ev) (simp_all add: process_line_def Let_def)
  qed (simp_all add: Pair process_line_def)
qed

lemma process_line_results:
  "results st = allVideos st \<Longrightarrow> results (process_line q st ln) = allVideos (process_line q st ln)"
proof (cases ln)
  case (Pair now l)
  assume inv: "results st = allVideos st"
  show ?thesis
  proof (cases l)
    case (Data ev)
    then show ?thesis using Pair inv by (cases ev) (simp_all add: process_line_def Let_def)
  qed (simp_all add: Pair process_line_def inv)
qed

lemma foldl_process_line_results:
  "results st = allVideos st \<Longrightarrow>
   map client_key (results (foldl (process_line q) st lines))
     = map client_key (allVideos st) @ map video_key (streamed_videos lines)"
proof (induction lines arbitrary: st)
  case Nil
  then show ?case by (simp add: streamed_videos_def)
next
  case (Cons ln lines)
  have "results (process_line q st ln) = allVideos (process_line q st ln)"
    using Cons.prems by (rule process_line_results)
  then have "map client_key (results (foldl (process_line q) (process_line q st ln) lines))
     = map client_key (allVideos (process_line q st ln)) @ map video_key (streamed_videos lines)"
    by (rule Cons.IH)
  then show ?case
    by (simp add: process_line_allVideos streamed_videos_def o_def client_key_new_video)
qed

lemma performSearch_stream_results:
  assumes "trim q \<noteq> []" "\<not> loading st"
  shows "map client_key (results (performSearch q (Stream lines ending) st))
           = map video_key (streamed_videos lines)"
proof -
  let ?st1 = "st\<lparr>loading := True, results := [], availableSources := [],
                     checkedSources := 0, searchStage := Searching, checkedVideos := 0,
                     totalVideos := 0, allVideos := [], sourceVideoCounts := [],
                     url_updates := url_updates st @ [q]\<rparr>"
  have "results ?st1 = allVideos ?st1" by simp
  then have "map client_key (results (foldl (process_line q) ?st1 lines))
     = map client_key (allVideos ?st1) @ map video_key (streamed_videos lines)"
    by (rule foldl_process_line_results)
  then show ?thesis using assms
    by (cases ending) (simp_all add: performSearch_def Let_def)
qed

text \<open>
  C1. An \<open>error\<close> event changes nothing: the \<open>throw\<close> is inside the inner \<open>try\<close>, whose
  \<open>catch\<close> is empty, so the loop goes on. After an \<open>error\<close> line, a \<open>videos\<close> line still
  adds its video to the results, and at the end of the stream \<open>loading\<close> is still true.
\<close>

theorem performSearch_error_event_swallowed:
  "process_line q st (now, Data (ErrorEvent message)) = st \<and>
   results (performSearch (ascii ''q'')
      (Stream [(1, Data (ErrorEvent (ascii ''boom''))), (2, Data (Videos [ex_video] 1 1))] Done)
      initial_run) = [new_video 2 ex_video] \<and>
   loading (performSearch (ascii ''q'')
      (Stream [(1, Data (ErrorEvent (ascii ''boom''))), (2, Data (Videos [ex_video] 1 1))] Done)
      initial_run) = True"
  by (simp add: process_line_def performSearch_def initial_run_def Let_def trim_def
      is_js_space_def ascii_def)

section \<open>Duplicates in the verified output\<close>

lemmas ex_eval = POST_def Let_def trim_def is_js_space_def ascii_def group_videos_def
  add_video_def map_has_def map_get_def build_response_def source_stats_def getSourceName_def
  sourceNames_def object_prototype_keys_def request_page_def ex_getSourceById_def
  ex_searchVideos_def ex_check_all_def ex_check_rev_def ex_request_def

text \<open>
  C5, as amended. Neither path removes or adds duplicates. In a successful batch run the
  videos of \<open>sources[].results\<close> are exactly the videos \<open>checkMultipleVideos\<close> returned,
  each as often as it returned it; in a streamed run that starts, the results list holds
  exactly the videos of the \<open>videos\<close> events received, in order. So the verified output
  has no two entries with the same (source, vod_id) exactly when the checker's output, or
  the stream's events, have none.
\<close>

theorem verified_output_multiplicity:
  "(POST g sv cm req = (resp, calls) \<and> body resp = SuccessTrue r \<longrightarrow>
      (\<exists>b srs avail.
          req = Inr (Body b) \<and>
          sv (trim (str_value (body_query b))) (List.map_filter g (arr_value (body_sources b)))
             (request_page b) = Inr srs \<and>
          cm (concat (map sr_results srs)) 8 = Inr avail \<and>
          mset (concat (map sr_results (r_sources r))) = mset avail \<and>
          distinct (map video_key (concat (map sr_results (r_sources r))))
            = distinct (map video_key avail))) \<and>
   (trim q \<noteq> [] \<and> \<not> loading st \<longrightarrow>
      map client_key (results (performSearch q (Stream lines ending) st))
        = map video_key (streamed_videos lines) \<and>
      distinct (map client_key (results (performSearch q (Stream lines ending) st)))
        = distinct (map video_key (streamed_videos lines)))"
proof -
  have batch: "\<exists>b srs avail.
          req = Inr (Body b) \<and>
          sv (trim (str_value (body_query b))) (List.map_filter g (arr_value (body_sources b)))
             (request_page b) = Inr srs \<and>
          cm (concat (map sr_results srs)) 8 = Inr avail \<and>
          mset (concat (map sr_results (r_sources r))) = mset avail \<and>
          distinct (map video_key (concat (map sr_results (r_sources r))))
            = distinct (map video_key avail)"
    if run: "POST g sv cm req = (resp, calls)" and ok: "body resp = SuccessTrue r"
  proof -
    from run ok obtain b srs avail where
      req: "req = Inr (Body b)" and
      q: "\<not> query_rejected (body_query b)" and s: "\<not> sources_rejected (body_sources b)" and
      n: "\<not> none_resolves g (arr_value (body_sources b))" and
      srs: "sv (trim (str_value (body_query b)))
              (List.map_filter g (arr_value (body_sources b))) (request_page b) = Inr srs" and
      avail: "cm (concat (map sr_results srs)) 8 = Inr avail"
      by (rule POST_success_inv)
    have "POST g sv cm (Inr (Body b)) =
       (\<lparr>status = 200,
         body = SuccessTrue
                  \<lparr>r_query = trim (str_value (body_query b)),
                   r_page = request_page b,
                   r_sources = build_response srs (group_videos avail),
                   totalResults = length avail,
                   sourceStats = source_stats (arr_value (body_sources b)) (group_videos avail)\<rparr>\<rparr>,
        [SearchVideos (trim (str_value (body_query b)))
           (List.map_filter g (arr_value (body_sources b))) (request_page b),
         CheckMultipleVideos (concat (map sr_results srs)) 8])"
      using q s n srs avail by (rule POST_success_path)
    then have "r_sources r = build_response srs (group_videos avail)"
      using run ok req by auto
    then have m: "mset (concat (map sr_results (r_sources r))) = mset avail"
      by (simp add: build_response_results group_videos_values)
    then have "mset (map video_key (concat (map sr_results (r_sources r))))
        = mset (map video_key avail)"
      by (simp only: mset_map)
    then have "distinct (map video_key (concat (map sr_results (r_sources r))))
            = distinct (map video_key avail)"
      by (rule mset_eq_imp_distinct_iff)
    then show ?thesis using req srs avail m by blast
  qed
  have stream: "map client_key (results (performSearch q (Stream lines ending) st))
        = map video_key (streamed_videos lines)"
    if "trim q \<noteq> []" and "\<not> loading st"
    using that by (rule performSearch_stream_results)
  show ?thesis using batch stream by auto
qed

theorem verified_output_multiplicity_witness:
  "POST ex_getSourceById ex_searchVideos ex_check_all (ex_request [ascii ''dytt'', ascii ''ruyi''])
   = (\<lparr>status = 200,
       body = SuccessTrue
         \<lparr>r_query = ascii ''matrix'', r_page = Num 1,
          r_sources = [\<lparr>sr_results = [\<lparr>vod_id = ascii ''1'', source = ascii ''dytt''\<rparr>],
                        sr_source = ascii ''dytt'', sr_responseTime = Some 50\<rparr>,
                       \<lparr>sr_results = [\<lparr>vod_id = ascii ''1'', source = ascii ''ruyi''\<rparr>],
                        sr_source = ascii ''ruyi'', sr_responseTime = Some 50\<rparr>],
          totalResults = 2,
          sourceStats = [\<lparr>sourceId = ascii ''dytt'', sourceName = Name [0x7535, 0x5F71, 0x5929, 0x5802], count = 1\<rparr>,
                         \<lparr>sourceId = ascii ''ruyi'', sourceName = Name [0x5982, 0x610F], count = 1\<rparr>]\<rparr>\<rparr>,
      [SearchVideos (ascii ''matrix'') [ascii ''dytt'', ascii ''ruyi''] (Num 1),
       CheckMultipleVideos [\<lparr>vod_id = ascii ''1'', source = ascii ''dytt''\<rparr>,
                            \<lparr>vod_id = ascii ''1'', source = ascii ''ruyi''\<rparr>] 8]) \<and>
   trim (ascii ''q'') \<noteq> [] \<and> \<not> loading initial_run \<and>
   distinct (map client_key (results (performSearch (ascii ''q'')
      (Stream [(1, Data (Videos [ex_video] 1 2)), (2, Data (ProgressChecking 1 2))] Done)
      initial_run)))"
  using verified_output_multiplicity [of ex_getSourceById ex_searchVideos ex_check_all
      "ex_request [ascii ''dytt'', ascii ''ruyi'']"
      "fst (POST ex_getSourceById ex_searchVideos ex_check_all
              (ex_request [ascii ''dytt'', ascii ''ruyi'']))"
      "snd (POST ex_getSourceById ex_searchVideos ex_check_all
              (ex_request [ascii ''dytt'', ascii ''ruyi'']))"
      "\<lparr>r_query = ascii ''matrix'', r_page = Num 1,
          r_sources = [\<lparr>sr_results = [\<lparr>vod_id = ascii ''1'', source = ascii ''dytt''\<rparr>],
                        sr_source = ascii ''dytt'', sr_responseTime = Some 50\<rparr>,
                       \<lparr>sr_results = [\<lparr>vod_id = ascii ''1'', source = ascii ''ruyi''\<rparr>],
                        sr_source = ascii ''ruyi'', sr_responseTime = Some 50\<rparr>],
          totalResults = 2,
          sourceStats = [\<lparr>sourceId = ascii ''dytt'', sourceName = Name [0x7535, 0x5F71, 0x5929, 0x5802], count = 1\<rparr>,
                         \<lparr>sourceId = ascii ''ruyi'', sourceName = Name [0x5982, 0x610F], count = 1\<rparr>]\<rparr>"
      "ascii ''q''" initial_run
      "[(1, Data (Videos [ex_video] 1 2)), (2, Data (ProgressChecking 1 2))]" Done]
  by (simp add: ex_eval streamed_videos_def initial_run_def)

text \<open>
  C5 as stated fails: a request that names the source \<open>dytt\<close> twice is searched twice,
  and the response lists the same (source, vod_id) twice; a stream that carries a video
  in two \<open>videos\<close> events leaves it twice in the results.
\<close>

theorem duplicate_candidates_counterexample:
  "(case body (fst (POST ex_getSourceById ex_searchVideos ex_check_all
                     (ex_request [ascii ''dytt'', ascii ''dytt'']))) of
      SuccessTrue r \<Rightarrow> \<not> distinct (map video_key (concat (map sr_results (r_sources r))))
    | _ \<Rightarrow> False) \<and>
   \<not> distinct (map client_key (results (performSearch (ascii ''q'')
      (Stream [(1, Data (Videos [ex_video] 1 2)), (2, Data (Videos [ex_video] 2 2))] Done)
      initial_run)))"
  by (simp add: ex_eval video_key_def client_key_def performSearch_def process_line_def
      initial_run_def new_video_def ex_video_def)

section \<open>Completion order\<close>




section \<open>A failing source\<close>

lemma search_output_sources:
  assumes out: "search_output source_id client sources srs"
      and v: "v \<in> set (concat (map sr_results srs))"
  shows "\<exists>s' vs t. s' \<in> set sources \<and> client s' = Inr (vs, t) \<and> v \<in> set vs"
proof -
  from v obtain sr where sr: "sr \<in> set srs" and vin: "v \<in> set (sr_results sr)" by auto
  have "set srs = set (map (source_result source_id client) sources)"
    using out unfolding search_output_def by (rule mset_eq_setD)
  then obtain s' where s': "s' \<in> set sources" and eq: "sr = source_result source_id client s'"
    using sr by auto
  show ?thesis
  proof (cases "client s'")
    case (Inl e)
    then show ?thesis using eq vin by (simp add: source_result_def)
  next
    case (Inr p)
    then show ?thesis using eq vin s' by (cases p) (auto simp: source_result_def)
  qed
qed

lemma map_filter_set: "y \<in> set (List.map_filter f xs) \<Longrightarrow> \<exists>x \<in> set xs. f x = Some y"
  by (auto simp: List.map_filter_def)

text \<open>
  C8. Under the search and the checker of the spec, take a valid request one of whose
  ids resolves to a source whose client call fails. Then POST answers 200 with the
  \<open>success: true\<close> body after both calls; no entry of \<open>sources\<close> has that source's id (it
  contributes no candidate and no response time); each of its \<open>sourceStats\<close> entries has
  count 0; and \<open>sources[].results\<close> holds exactly the available candidates of the per-source
  results, those of the other sources.
\<close>

theorem POST_failed_source:
  assumes q: "body_query b = Str q" "trim q \<noteq> []"
      and ids: "body_sources b = Arr ids"
      and requested: "sid \<in> set ids" "getSourceById sid = Some s"
      and by_id: "\<forall>i s'. getSourceById i = Some s' \<longrightarrow> source_id s' = i"
      and stamped: "\<forall>s' vs t. client s' = Inr (vs, t) \<longrightarrow> (\<forall>v \<in> set vs. source v = source_id s')"
      and failed: "client s = Inl e"
      and search: "searchVideos (trim q) (List.map_filter getSourceById ids) (request_page b) = Inr srs"
                  "search_output source_id client (List.map_filter getSourceById ids) srs"
      and check: "checkMultipleVideos (concat (map sr_results srs)) 8 = Inr out"
                 "checker_output available (concat (map sr_results srs)) out"
  shows "\<exists>r. POST getSourceById searchVideos checkMultipleVideos (Inr (Body b)) =
              (\<lparr>status = 200, body = SuccessTrue r\<rparr>,
               [SearchVideos (trim q) (List.map_filter getSourceById ids) (request_page b),
                CheckMultipleVideos (concat (map sr_results srs)) 8]) \<and>
             sid \<notin> sr_source ` set (r_sources r) \<and>
             (\<forall>st \<in> set (sourceStats r). sourceId st = sid \<longrightarrow> count st = 0) \<and>
             mset (concat (map sr_results (r_sources r))) =
               mset (filter available
                      (concat (map (\<lambda>s'. sr_results (source_result source_id client s'))
                                   (List.map_filter getSourceById ids))))"
proof -
  let ?sources = "List.map_filter getSourceById ids"
  let ?r = "\<lparr>r_query = trim (str_value (body_query b)),
             r_page = request_page b,
             r_sources = build_response srs (group_videos out),
             totalResults = length out,
             sourceStats = source_stats (arr_value (body_sources b)) (group_videos out)\<rparr>"
  have qr: "\<not> query_rejected (body_query b)"
    using q by (simp add: query_rejected_def)
  have sr: "\<not> sources_rejected (body_sources b)"
    using ids requested(1) by (auto simp: sources_rejected_def)
  have nr: "\<not> none_resolves getSourceById (arr_value (body_sources b))"
    using ids requested by (auto simp: none_resolves_def list_all_iff)
  have s1: "searchVideos (trim (str_value (body_query b)))
      (List.map_filter getSourceById (arr_value (body_sources b))) (request_page b) = Inr srs"
    using search(1) q ids by simp
  have post: "POST getSourceById searchVideos checkMultipleVideos (Inr (Body b)) =
     (\<lparr>status = 200, body = SuccessTrue ?r\<rparr>,
      [SearchVideos (trim (str_value (body_query b)))
         (List.map_filter getSourceById (arr_value (body_sources b))) (request_page b),
       CheckMultipleVideos (concat (map sr_results srs)) 8])"
    using qr sr nr s1 check(1) by (rule POST_success_path)
  have no_video: "source v \<noteq> sid" if v: "v \<in> set out" for v
  proof
    assume eq: "source v = sid"
    have "set out = set (filter available (concat (map sr_results srs)))"
      using check(2) unfolding checker_output_def by (rule mset_eq_setD)
    then have "v \<in> set (concat (map sr_results srs))" using v by auto
    with search(2) obtain s' vs t where
      s': "s' \<in> set ?sources" and ok: "client s' = Inr (vs, t)" and vin: "v \<in> set vs"
      using search_output_sources by blast
    from s' obtain i where "i \<in> set ids" and gi: "getSourceById i = Some s'"
      using map_filter_set by fastforce
    have "source v = source_id s'" using stamped ok vin by blast
    moreover have "source_id s' = i" using by_id gi by blast
    ultimately have "i = sid" using eq by simp
    then have "s' = s" using gi requested(2) by simp
    then show False using ok failed by simp
  qed
  then have absent: "sid \<notin> source ` set out" by auto
  have "sr_source ` set (build_response srs (group_videos out)) = source ` set out"
  proof -
    have "set (map sr_source (build_response srs (group_videos out)))
        = set (map fst (group_videos out))"
      by (simp only: build_response_sources)
    then show ?thesis by (simp add: group_videos_keys)
  qed
  then have part1: "sid \<notin> sr_source ` set (r_sources ?r)"
    using absent by simp
  have "filter (\<lambda>v. source v = sid) out = []"
    using no_video by (auto simp: filter_empty_conv)
  then have part2: "\<forall>st \<in> set (sourceStats ?r). sourceId st = sid \<longrightarrow> count st = 0"
    by (auto simp: source_stats_group)
  have "mset (concat (map sr_results srs))
      = mset (concat (map sr_results (map (source_result source_id client) ?sources)))"
    using search(2) unfolding search_output_def by (rule mset_concat_map_cong)
  then have "mset (filter available (concat (map sr_results srs)))
      = mset (filter available (concat (map sr_results (map (source_result source_id client) ?sources))))"
    by (simp only: mset_filter)
  then have part3: "mset (concat (map sr_results (r_sources ?r))) =
               mset (filter available
                      (concat (map (\<lambda>s'. sr_results (source_result source_id client s')) ?sources)))"
    using check(2)
    by (simp add: build_response_results group_videos_values checker_output_def o_def)
  show ?thesis
    using post part1 part2 part3 q ids by (intro exI [of _ ?r]) simp
qed

section \<open>Example runs, evaluated\<close>

lemma ex_run:
  "POST ex_getSourceById ex_searchVideos ex_check_all (ex_request [ascii ''dytt'', ascii ''zzz''])
   = (\<lparr>status = 200, body = SuccessTrue ex_response\<rparr>,
      [SearchVideos (ascii ''matrix'') [ascii ''dytt''] (Num 1),
       CheckMultipleVideos [\<lparr>vod_id = ascii ''1'', source = ascii ''dytt''\<rparr>] 8])"
  by (simp add: ex_eval ex_response_def)

theorem POST_success_shape_witness:
  "POST ex_getSourceById ex_searchVideos ex_check_all (ex_request [ascii ''dytt'', ascii ''zzz''])
   = (\<lparr>status = 200, body = SuccessTrue ex_response\<rparr>,
      [SearchVideos (ascii ''matrix'') [ascii ''dytt''] (Num 1),
       CheckMultipleVideos [\<lparr>vod_id = ascii ''1'', source = ascii ''dytt''\<rparr>] 8]) \<and>
   r_query ex_response = trim (ascii '' matrix '') \<and>
   totalResults ex_response = 1 \<and>
   map sourceId (sourceStats ex_response) = [ascii ''dytt'', ascii ''zzz''] \<and>
   map count (sourceStats ex_response) = [1, 0] \<and>
   map sourceName (sourceStats ex_response)
     = [Name (display_name (ascii ''dytt'')), Name (ascii ''zzz'')]"
proof -
  have run: "POST ex_getSourceById ex_searchVideos ex_check_all
      (ex_request [ascii ''dytt'', ascii ''zzz''])
   = (\<lparr>status = 200, body = SuccessTrue ex_response\<rparr>,
      [SearchVideos (ascii ''matrix'') [ascii ''dytt''] (Num 1),
       CheckMultipleVideos [\<lparr>vod_id = ascii ''1'', source = ascii ''dytt''\<rparr>] 8])"
    by (rule ex_run)
  have ok: "body \<lparr>status = 200, body = SuccessTrue ex_response\<rparr> = SuccessTrue ex_response"
    by simp
  from POST_success_shape [OF run ok]
  obtain b q ids searchResults availableVideos where
    "ex_request [ascii ''dytt'', ascii ''zzz''] = Inr (Body b)" "body_query b = Str q"
    "body_sources b = Arr ids"
    "ex_searchVideos (trim q) (List.map_filter ex_getSourceById ids) (request_page b)
       = Inr searchResults"
    "ex_check_all (concat (map sr_results searchResults)) 8 = Inr availableVideos"
    "r_query ex_response = trim q" "totalResults ex_response = length availableVideos"
    "sourceStats ex_response =
             map (\<lambda>sid. \<lparr>sourceId = sid, sourceName = response_name sid,
                          count = length (filter (\<lambda>v. source v = sid) availableVideos)\<rparr>) ids"
    by blast
  then show ?thesis using run
    by (auto simp: ex_request_def ex_searchVideos_def ex_check_all_def ex_getSourceById_def
        ascii_def display_name_def sourceNames_def response_name_def object_prototype_keys_def)
qed

theorem POST_validation_failure_body_witness:
  "POST ex_getSourceById ex_searchVideos ex_check_all
     (Inr (Body \<lparr>body_query = Str [], body_sources = Arr [ascii ''dytt''], body_page = Undefined\<rparr>))
   = (\<lparr>status = 400, body = ErrorOnly (ascii ''Invalid or missing query parameter'')\<rparr>, []) \<and>
   success_field (ErrorOnly (ascii ''Invalid or missing query parameter'')) = None"
  by (rule POST_validation_failure_body)

theorem POST_failed_source_witness:
  "ex_client (ascii ''ruyi'') = Inl SourceUnavailable \<and>
   ex_getSourceById (ascii ''ruyi'') = Some (ascii ''ruyi'') \<and>
   status (fst (POST ex_getSourceById ex_searchVideos_spec ex_check_all
                  (ex_request [ascii ''dytt'', ascii ''ruyi'']))) = 200 \<and>
   (case body (fst (POST ex_getSourceById ex_searchVideos_spec ex_check_all
                      (ex_request [ascii ''dytt'', ascii ''ruyi'']))) of
      SuccessTrue r \<Rightarrow>
        map sr_source (r_sources r) = [ascii ''dytt''] \<and> map count (sourceStats r) = [1, 0] \<and>
        concat (map sr_results (r_sources r)) = [\<lparr>vod_id = ascii ''1'', source = ascii ''dytt''\<rparr>]
    | _ \<Rightarrow> False)"
proof -
  let ?b = "\<lparr>body_query = Str (ascii '' matrix ''),
             body_sources = Arr [ascii ''dytt'', ascii ''ruyi''], body_page = Undefined\<rparr>"
  let ?srs = "map (source_result (\<lambda>s. s) ex_client) [ascii ''dytt'', ascii ''ruyi'']"
  have q: "body_query ?b = Str (ascii '' matrix '')" "trim (ascii '' matrix '') \<noteq> []"
    by (simp_all add: trim_def is_js_space_def ascii_def)
  have ids: "body_sources ?b = Arr [ascii ''dytt'', ascii ''ruyi'']" by simp
  have requested: "ascii ''ruyi'' \<in> set [ascii ''dytt'', ascii ''ruyi'']"
    "ex_getSourceById (ascii ''ruyi'') = Some (ascii ''ruyi'')"
    by (simp_all add: ex_getSourceById_def)
  have by_id: "\<forall>i s'. ex_getSourceById i = Some s' \<longrightarrow> (\<lambda>s. s) s' = i"
    by (simp add: ex_getSourceById_def)
  have stamped: "\<forall>s' vs t. ex_client s' = Inr (vs, t) \<longrightarrow> (\<forall>v \<in> set vs. source v = (\<lambda>s. s) s')"
    by (auto simp: ex_client_def split: if_splits)
  have failed: "ex_client (ascii ''ruyi'') = Inl SourceUnavailable"
    by (simp add: ex_client_def ascii_def)
  have resolved: "List.map_filter ex_getSourceById [ascii ''dytt'', ascii ''ruyi'']
      = [ascii ''dytt'', ascii ''ruyi'']"
    by (simp add: ex_getSourceById_def)
  have search: "ex_searchVideos_spec (trim (ascii '' matrix ''))
      (List.map_filter ex_getSourceById [ascii ''dytt'', ascii ''ruyi'']) (request_page ?b) = Inr ?srs"
    "search_output (\<lambda>s. s) ex_client
      (List.map_filter ex_getSourceById [ascii ''dytt'', ascii ''ruyi'']) ?srs"
    by (simp_all add: ex_searchVideos_spec_def search_output_def ex_getSourceById_def)
  have check: "ex_check_all (concat (map sr_results ?srs)) 8 = Inr (concat (map sr_results ?srs))"
    "checker_output (\<lambda>v. True) (concat (map sr_results ?srs)) (concat (map sr_results ?srs))"
    by (simp_all add: ex_check_all_def checker_output_def)
  from POST_failed_source [of ?b "ascii '' matrix ''" "[ascii ''dytt'', ascii ''ruyi'']"
      "ascii ''ruyi''" ex_getSourceById "ascii ''ruyi''" "\<lambda>s. s" ex_client SourceUnavailable
      ex_searchVideos_spec ?srs ex_check_all "concat (map sr_results ?srs)" "\<lambda>v. True",
      OF q ids requested by_id stamped failed search check]
  obtain r where
    "POST ex_getSourceById ex_searchVideos_spec ex_check_all (Inr (Body ?b)) =
              (\<lparr>status = 200, body = SuccessTrue r\<rparr>,
               [SearchVideos (trim (ascii '' matrix ''))
                  (List.map_filter ex_getSourceById [ascii ''dytt'', ascii ''ruyi'']) (request_page ?b),
                CheckMultipleVideos (concat (map sr_results ?srs)) 8])"
    by blast
  then show ?thesis using failed requested(2)
    by (auto simp: ex_eval ex_searchVideos_spec_def source_result_def ex_client_def)
qed

text \<open>
  C4. A successful run whose request names, next to the source \<open>dytt\<close>, the id
  \<open>constructor\<close>: the \<open>sourceStats\<close> entry of that id does not carry the id as its
  name, as an unknown id should, but the member the table inherits under that key.
\<close>

theorem POST_inherited_source_name:
  "status (fst (POST ex_getSourceById ex_searchVideos ex_check_all
     (Inr (Body \<lparr>body_query = Str (ascii ''x''),
                 body_sources = Arr [ascii ''dytt'', ascii ''constructor''],
                 body_page = page\<rparr>)))) = 200 \<and>
   (case body (fst (POST ex_getSourceById ex_searchVideos ex_check_all
     (Inr (Body \<lparr>body_query = Str (ascii ''x''),
                 body_sources = Arr [ascii ''dytt'', ascii ''constructor''],
                 body_page = page\<rparr>)))) of
      SuccessTrue r \<Rightarrow>
        map sourceId (sourceStats r) = [ascii ''dytt'', ascii ''constructor''] \<and>
        map sourceName (sourceStats r)
          = [Name [0x7535, 0x5F71, 0x5929, 0x5802], Inherited (ascii ''constructor'')]
    | _ \<Rightarrow> False) \<and>
   getSourceName (ascii ''constructor'') \<noteq> Name (ascii ''constructor'')"
  by (simp add: ex_eval)

theorem POST_inherited_source_name_witness:
  "status (fst (POST ex_getSourceById ex_searchVideos ex_check_all
     (Inr (Body \<lparr>body_query = Str (ascii ''x''),
                 body_sources = Arr [ascii ''dytt'', ascii ''constructor''],
                 body_page = Undefined\<rparr>)))) = 200 \<and>
   (case body (fst (POST ex_getSourceById ex_searchVideos ex_check_all
     (Inr (Body \<lparr>body_query = Str (ascii ''x''),
                 body_sources = Arr [ascii ''dytt'', ascii ''constructor''],
                 body_page = Undefined\<rparr>)))) of
      SuccessTrue r \<Rightarrow>
        map sourceId (sourceStats r) = [ascii ''dytt'', ascii ''constructor''] \<and>
        map sourceName (sourceStats r)
          = [Name [0x7535, 0x5F71, 0x5929, 0x5802], Inherited (ascii ''constructor'')]
    | _ \<Rightarrow> False) \<and>
   getSourceName (ascii ''constructor'') \<noteq> Name (ascii ''constructor'')"
  by (rule POST_inherited_source_name)

end
